theory Spec2Isabelle
  imports Main "HOL-Library.Word"
begin

unbundle bit_operations_syntax

section \<open>NEC infrared protocol: codec\<close>

text \<open>
  Go's \<open>byte\<close>, \<open>uint16\<close> and \<open>uint32\<close> are words of 8, 16 and 32 bits.
  A conversion \<open>byte(x)\<close> or \<open>uint32(x)\<close> between unsigned types is \<open>ucast\<close>
  (truncation or zero extension), \<open>^x\<close> is \<open>NOT x\<close>, \<open>x << n\<close> is
  \<open>push_bit n x\<close> and \<open>x >> n\<close> is \<open>drop_bit n x\<close>.
  A \<open>time.Duration\<close> is a signed 64-bit count of nanoseconds; it is embedded into
  the integers, and the durations the sender computes are shown to stay far inside
  the 64-bit range (\<open>SendNECRawBytes_int64\<close>).
\<close>

type_synonym u8 = "8 word"
type_synonym u16 = "16 word"
type_synonym u32 = "32 word"
type_synonym duration = int

subsection \<open>Protocol constants\<close>

definition NEC_modulation_frequency :: nat where
  "NEC_modulation_frequency = 38000"

definition nec_unit :: duration where
  "nec_unit = 1 * 562500"

definition nec_lead_mark :: duration where
  "nec_lead_mark = nec_unit * 16"

definition nec_lead_space :: duration where
  "nec_lead_space = nec_unit * 8"

definition nec_repeat_space :: duration where
  "nec_repeat_space = nec_unit * 4"

definition nec_bit_mark :: duration where
  "nec_bit_mark = nec_unit"

definition nec_bit_0_space :: duration where
  "nec_bit_0_space = nec_unit"

definition nec_bit_1_space :: duration where
  "nec_bit_1_space = nec_unit * 3"

definition nec_trail_mark :: duration where
  "nec_trail_mark = nec_unit"

definition nec_repeat_period :: duration where
  "nec_repeat_period = nec_unit * 192"

subsection \<open>Addresses\<close>

text \<open>Split an NEC address into low and high bytes (\<open>SplitNECAddress\<close>).\<close>

definition SplitNECAddress :: "u16 \<Rightarrow> u8 \<times> u8" where
  "SplitNECAddress address =
     (let addrLow = (ucast (address AND 0xff) :: u8);
          addrHigh = (ucast (drop_bit 8 (address AND 0xff00)) :: u8)
      in if addrHigh = 0 then (addrLow, NOT addrLow) else (addrLow, addrHigh))"

text \<open>Assemble an NEC address from low and high bytes (\<open>MakeNECAddress\<close>).\<close>

definition MakeNECAddress :: "u8 \<Rightarrow> u8 \<Rightarrow> u16" where
  "MakeNECAddress addrLow addrHigh =
     (if addrHigh = NOT addrLow then ucast addrLow
      else push_bit 8 (ucast addrHigh :: u16) OR ucast addrLow)"

subsection \<open>Raw codes\<close>

text \<open>
  Break a raw code into validity flag, address and command (\<open>SplitRawNECData\<close>).
  The three results are the triple \<open>(valid, address, command)\<close>.
\<close>

definition SplitRawNECData :: "u32 \<Rightarrow> bool \<times> u16 \<times> u8" where
  "SplitRawNECData data =
     (let addrLow = (ucast (data AND 0xff) :: u8);
          addrHigh = (ucast (drop_bit 8 (data AND 0xff00)) :: u8);
          command = (ucast (drop_bit 16 (data AND 0xff0000)) :: u8);
          invCmd = (ucast (drop_bit 24 (data AND 0xff000000)) :: u8);
          address = MakeNECAddress addrLow addrHigh
      in if command \<noteq> NOT invCmd then (False, address, command)
         else (True, address, command))"

text \<open>Assemble a raw code from address and command (\<open>MakeRawNECData\<close>).\<close>

definition MakeRawNECData :: "u16 \<Rightarrow> u8 \<Rightarrow> u32" where
  "MakeRawNECData address command =
     (case SplitNECAddress address of (addrLow, addrHigh) \<Rightarrow>
        push_bit 24 (ucast (NOT command) :: u32) OR push_bit 16 (ucast command :: u32)
          OR push_bit 8 (ucast addrHigh :: u32) OR ucast addrLow)"

section \<open>NEC infrared protocol: sender\<close>

text \<open>
  The PWM collaborator is an interface outside this repository. The sender asks it for
  the channel of a pin (the error result is discarded by the caller) and for its top
  value, and calls \<open>Set\<close>. The two queries are fields of the model;
  every \<open>Set\<close> call and every \<open>time.Sleep\<close> is appended to a log of outputs.
\<close>

type_synonym pin = u8

record PWM =
  Channel :: "pin \<Rightarrow> u8"
  Top :: u32

datatype out_event = PwmSet u8 u32 | Sleep duration

text \<open>
  A channel value is \<open>nil\<close> (\<open>None\<close>), or a channel that is still open or
  has been closed. Nothing is ever sent on the channel.
\<close>

datatype chan = Open | Closed

text \<open>Go's \<open>int\<close> (32 or 64 bits wide) is embedded into the integers.\<close>

record SenderDevice =
  pin :: pin
  pwm :: PWM
  pwmDC :: int
  chRpt :: "chan option"

record SenderConfig =
  Pin :: pin
  PWM :: PWM
  ModulationDutyCycle :: int

text \<open>
  State of the calling thread: the device, the outputs issued so far, and the
  goroutines started so far, each recorded by the argument of its first
  \<open>time.Sleep\<close>. A started goroutine is recorded, not run.
\<close>

record sender_state =
  ir :: SenderDevice
  outputs :: "out_event list"
  goroutines :: "duration list"

definition NewSender :: "SenderConfig \<Rightarrow> SenderDevice" where
  "NewSender config =
     (let config' =
            (if ModulationDutyCycle config < 1 \<or> ModulationDutyCycle config > 100
             then config\<lparr>ModulationDutyCycle := 33\<rparr> else config)
      in \<lparr>pin = Pin config', pwm = PWM config',
          pwmDC = ModulationDutyCycle config', chRpt = None\<rparr>)"

definition sleep :: "duration \<Rightarrow> sender_state \<Rightarrow> sender_state" where
  "sleep d s = s\<lparr>outputs := outputs s @ [Sleep d]\<rparr>"

definition pwm_set :: "u8 \<Rightarrow> u32 \<Rightarrow> sender_state \<Rightarrow> sender_state" where
  "pwm_set c v s = s\<lparr>outputs := outputs s @ [PwmSet c v]\<rparr>"

text \<open>\<open>mark\<close>: pulse the carrier at the duty cycle for the duration, then lower it.\<close>

definition mark :: "duration \<Rightarrow> sender_state \<Rightarrow> sender_state" where
  "mark d s =
     (let pwmChan = Channel (pwm (ir s)) (pin (ir s));
          s1 = pwm_set pwmChan (Top (pwm (ir s)) * word_of_int (pwmDC (ir s)) div 100) s;
          s2 = sleep d s1
      in pwm_set pwmChan 0 s2)"

text \<open>\<open>space\<close>: the carrier is already low, only wait.\<close>

definition space :: "duration \<Rightarrow> sender_state \<Rightarrow> sender_state" where
  "space d s = sleep d s"

text \<open>
  \<open>waitForAutoRepeatCancel\<close>: loop while the channel is not \<open>nil\<close>; close it when
  it is open, sleep when it is closed. Only the repeat goroutine resets the channel to
  \<open>nil\<close>, so in the calling thread alone the loop does not end once entered: the
  result is then \<open>None\<close>.
\<close>

partial_function (option) waitForAutoRepeatCancel :: "sender_state \<Rightarrow> sender_state option" where
  "waitForAutoRepeatCancel s =
     (case chRpt (ir s) of
        None \<Rightarrow> Some s
      | Some Closed \<Rightarrow> waitForAutoRepeatCancel (sleep (nec_unit * 40) s)
      | Some Open \<Rightarrow> waitForAutoRepeatCancel (s\<lparr>ir := (ir s)\<lparr>chRpt := Some Closed\<rparr>\<rparr>))"

text \<open>
  The inner loop of \<open>SendNECRawBytes\<close> over the bits \<open>i, \<dots>, 7\<close> of one byte,
  least significant first, threading the device state and \<open>txDuration\<close>.
\<close>

function sendBitsFrom :: "u8 \<Rightarrow> nat \<Rightarrow> sender_state \<times> duration \<Rightarrow> sender_state \<times> duration" where
  "sendBitsFrom b i (s, txDuration) =
     (if i < 8 then
        (let mask = (push_bit i 1 :: u8);
             s1 = mark nec_bit_mark s
         in if b AND mask = 0
            then sendBitsFrom b (i + 1) (space nec_bit_0_space s1, txDuration + nec_bit_0_space)
            else sendBitsFrom b (i + 1) (space nec_bit_1_space s1, txDuration + nec_bit_1_space))
      else (s, txDuration))"
  by pat_completeness auto
termination
  by (relation "measure (\<lambda>(b, i, st). 8 - i)") auto

text \<open>The outer loop over \<open>bytesToSend\<close>.\<close>

fun sendBytes :: "u8 list \<Rightarrow> sender_state \<times> duration \<Rightarrow> sender_state \<times> duration" where
  "sendBytes [] st = st"
| "sendBytes (b # bs) st = sendBytes bs (sendBitsFrom b 0 st)"

definition SendNECRawBytes ::
  "sender_state \<Rightarrow> u8 \<Rightarrow> u8 \<Rightarrow> u8 \<Rightarrow> u8 \<Rightarrow> (sender_state \<times> duration) option" where
  "SendNECRawBytes s addrLow addrHigh cmd invCmd =
     (case waitForAutoRepeatCancel s of
        None \<Rightarrow> None
      | Some s0 \<Rightarrow>
          (let bytesToSend = [addrLow, addrHigh, cmd, invCmd];
               txDuration = nec_lead_mark + nec_lead_space + 32 * nec_bit_mark + nec_trail_mark;
               s1 = mark nec_lead_mark s0;
               s2 = space nec_lead_space s1
           in case sendBytes bytesToSend (s2, txDuration) of
                (s3, txDuration') \<Rightarrow> Some (mark nec_trail_mark s3, txDuration')))"

definition SendNECRepeat :: "sender_state \<Rightarrow> sender_state \<times> duration" where
  "SendNECRepeat s =
     (let s1 = mark nec_lead_mark s;
          s2 = space nec_repeat_space s1;
          s3 = mark nec_trail_mark s2
      in (s3, nec_lead_mark + nec_repeat_space + nec_trail_mark))"

definition StopNECRepeats :: "sender_state \<Rightarrow> sender_state option" where
  "StopNECRepeats s = waitForAutoRepeatCancel s"

definition SendNECRawCode :: "sender_state \<Rightarrow> u32 \<Rightarrow> (sender_state \<times> duration) option" where
  "SendNECRawCode s data =
     (case SplitRawNECData data of
        (valid, address, cmd) \<Rightarrow>
          if \<not> valid then Some (s, 0)
          else (case SplitNECAddress address of
                  (addrLow, addrHigh) \<Rightarrow> SendNECRawBytes s addrLow addrHigh cmd (NOT cmd)))"

text \<open>
  \<open>SendNEC\<close>: with \<open>autoRepeat\<close> a fresh open channel is stored and the repeat
  goroutine is started; its first statement sleeps for
  \<open>nec_repeat_period - dataTxDuration\<close>.
\<close>

definition SendNEC :: "sender_state \<Rightarrow> u16 \<Rightarrow> u8 \<Rightarrow> bool \<Rightarrow> sender_state option" where
  "SendNEC s address command autoRepeat =
     (case SplitNECAddress address of
        (addrLow, addrHigh) \<Rightarrow>
          (case SendNECRawBytes s addrLow addrHigh command (NOT command) of
             None \<Rightarrow> None
           | Some (s1, dataTxDuration) \<Rightarrow>
               if autoRepeat
               then Some (s1\<lparr>ir := (ir s1)\<lparr>chRpt := Some Open\<rparr>,
                            goroutines := goroutines s1 @ [nec_repeat_period - dataTxDuration]\<rparr>)
               else Some s1))"

text \<open>
  The number of 1 bits of a byte, for stating durations; it is the cardinality of the
  set of 1 bits (\<open>count_1_bits_card\<close>).
\<close>

definition count_1_bits :: "u8 \<Rightarrow> nat" where
  "count_1_bits b = length (filter (bit b) [0..<8])"

text \<open>A sender as \<open>NewSender\<close> returns it, with nothing sent yet.\<close>

definition idle_sender :: sender_state where
  "idle_sender =
     \<lparr>ir = NewSender \<lparr>Pin = 13, PWM = \<lparr>Channel = (\<lambda>p. 2), Top = 1000\<rparr>,
                        ModulationDutyCycle = 0\<rparr>,
      outputs = [], goroutines = []\<rparr>"

declare sendBitsFrom.simps [simp del]
declare waitForAutoRepeatCancel.simps [code]

lemmas nec_consts =
  nec_unit_def nec_lead_mark_def nec_lead_space_def nec_repeat_space_def
  nec_bit_mark_def nec_bit_0_space_def nec_bit_1_space_def nec_trail_mark_def
  nec_repeat_period_def

section \<open>Bytes of a word\<close>

lemma mask_ff: "(0xff :: 'a::len word) = mask 8"
  by (simp add: mask_eq_exp_minus_1)

lemma mask_ff00_16: "(0xff00 :: u16) = push_bit 8 (mask 8)"
  by (simp add: mask_eq_exp_minus_1 push_bit_eq_mult)

lemma mask_ff00: "(0xff00 :: u32) = push_bit 8 (mask 8)"
  by (simp add: mask_eq_exp_minus_1 push_bit_eq_mult)

lemma mask_ff0000: "(0xff0000 :: u32) = push_bit 16 (mask 8)"
  by (simp add: mask_eq_exp_minus_1 push_bit_eq_mult)

lemma mask_ff000000: "(0xff000000 :: u32) = push_bit 24 (mask 8)"
  by (simp add: mask_eq_exp_minus_1 push_bit_eq_mult)

text \<open>Masking before the shift and the truncation to a byte changes nothing.\<close>

lemma byte0_of_u32: "(ucast (d AND 0xff :: u32) :: u8) = ucast d"
  unfolding mask_ff by (rule bit_word_eqI) (auto simp: bit_simps)

lemma byte1_of_u32: "(ucast (drop_bit 8 (d AND 0xff00 :: u32)) :: u8) = ucast (drop_bit 8 d)"
  unfolding mask_ff00 by (rule bit_word_eqI) (auto simp: bit_simps)

lemma byte2_of_u32: "(ucast (drop_bit 16 (d AND 0xff0000 :: u32)) :: u8) = ucast (drop_bit 16 d)"
  unfolding mask_ff0000 by (rule bit_word_eqI) (auto simp: bit_simps)

lemma byte3_of_u32: "(ucast (drop_bit 24 (d AND 0xff000000 :: u32)) :: u8) = ucast (drop_bit 24 d)"
  unfolding mask_ff000000 by (rule bit_word_eqI) (auto simp: bit_simps)

lemma byte0_of_u16: "(ucast (a AND 0xff :: u16) :: u8) = ucast a"
  unfolding mask_ff by (rule bit_word_eqI) (auto simp: bit_simps)

lemma byte1_of_u16: "(ucast (drop_bit 8 (a AND 0xff00 :: u16)) :: u8) = ucast (drop_bit 8 a)"
  unfolding mask_ff00_16 by (rule bit_word_eqI) (auto simp: bit_simps)

text \<open>The four bytes of a packed word.\<close>

lemma packed_byte0:
  "(ucast (push_bit 24 (ucast b3 :: u32) OR push_bit 16 (ucast b2 :: u32)
      OR push_bit 8 (ucast b1 :: u32) OR ucast b0) :: u8) = (b0 :: u8)"
  for b1 b2 b3 :: u8
  by (rule bit_word_eqI) (auto simp: bit_simps dest: bit_imp_le_length)

lemma packed_byte1:
  "(ucast (drop_bit 8 (push_bit 24 (ucast b3 :: u32) OR push_bit 16 (ucast b2 :: u32)
      OR push_bit 8 (ucast b1 :: u32) OR ucast b0)) :: u8) = (b1 :: u8)"
  for b0 b2 b3 :: u8
  by (rule bit_word_eqI) (auto simp: bit_simps dest: bit_imp_le_length)

lemma packed_byte2:
  "(ucast (drop_bit 16 (push_bit 24 (ucast b3 :: u32) OR push_bit 16 (ucast b2 :: u32)
      OR push_bit 8 (ucast b1 :: u32) OR ucast b0)) :: u8) = (b2 :: u8)"
  for b0 b1 b3 :: u8
  by (rule bit_word_eqI) (auto simp: bit_simps dest: bit_imp_le_length)

lemma packed_byte3:
  "(ucast (drop_bit 24 (push_bit 24 (ucast b3 :: u32) OR push_bit 16 (ucast b2 :: u32)
      OR push_bit 8 (ucast b1 :: u32) OR ucast b0)) :: u8) = (b3 :: u8)"
  for b0 b1 b2 :: u8
  by (rule bit_word_eqI) (auto simp: bit_simps dest: bit_imp_le_length)

lemma join_bytes_u16:
  "push_bit 8 (ucast (ucast (drop_bit 8 a) :: u8) :: u16) OR ucast (ucast a :: u8) = (a :: u16)"
  by (rule bit_word_eqI) (auto simp: bit_simps)

lemma low_byte_u16: "(ucast (ucast a :: u8) :: u16) = (a :: u16) AND 0xff"
  unfolding mask_ff by (rule bit_word_eqI) (auto simp: bit_simps)

lemma drop8_zero_iff: "(drop_bit 8 a = 0) = ((a :: u16) \<le> 0xff)"
proof -
  have "(drop_bit 8 a = 0) = (unat a div 256 = 0)"
    by (simp add: unat_eq_0 [symmetric] drop_bit_eq_div unat_div)
  also have "\<dots> = (unat a \<le> 255)"
    by auto
  also have "\<dots> = (a \<le> 0xff)"
    by (simp add: word_le_nat_alt)
  finally show ?thesis .
qed

lemma high_byte_zero_iff: "((ucast (drop_bit 8 a) :: u8) = 0) = ((a :: u16) \<le> 0xff)"
proof -
  have "unat a < 2 ^ LENGTH(16)"
    by (rule unsigned_less)
  then have lt: "unat a < 65536"
    by simp
  have "unat (ucast (drop_bit 8 a) :: u8) = unat a div 256 mod 256"
    by (simp add: unsigned_ucast_eq take_bit_eq_mod drop_bit_eq_div unat_div)
  also have "\<dots> = unat a div 256"
    using lt by simp
  finally have "((ucast (drop_bit 8 a) :: u8) = 0) = (unat a div 256 = 0)"
    by (simp add: unat_eq_0 [symmetric])
  also have "\<dots> = (unat a \<le> 255)"
    by auto
  also have "\<dots> = (a \<le> 0xff)"
    by (simp add: word_le_nat_alt)
  finally show ?thesis .
qed

lemma low_byte_small:
  assumes "(a :: u16) \<le> 0xff"
  shows "a AND 0xff = a"
proof -
  have "unat a < 2 ^ 8"
    using assms by (simp add: word_le_nat_alt)
  then have "a < 2 ^ 8"
    by (simp add: word_less_nat_alt)
  then have "a AND mask 8 = a"
    by (rule less_mask_eq)
  then show ?thesis
    by (simp only: mask_ff)
qed

section \<open>The codec on bytes\<close>

lemma SplitRawNECData_bytes:
  "SplitRawNECData d =
     ((ucast (drop_bit 16 d) :: u8) = NOT (ucast (drop_bit 24 d)),
      MakeNECAddress (ucast d) (ucast (drop_bit 8 d)),
      ucast (drop_bit 16 d))"
  by (simp add: SplitRawNECData_def Let_def byte0_of_u32 byte1_of_u32 byte2_of_u32 byte3_of_u32)

lemma SplitNECAddress_bytes:
  "SplitNECAddress a =
     (ucast a, if (ucast (drop_bit 8 a) :: u8) = 0 then NOT (ucast a) else ucast (drop_bit 8 a))"
  by (simp add: SplitNECAddress_def Let_def byte0_of_u16 byte1_of_u16)

text \<open>Splitting an address and assembling it again keeps it or keeps its low byte.\<close>

lemma split_make_address:
  "case_prod MakeNECAddress (SplitNECAddress a) =
     (if (ucast (drop_bit 8 a) :: u8) = NOT (ucast a) then a AND 0xff else a)"
proof (cases "a \<le> 0xff")
  case True
  then have "SplitNECAddress a = (ucast a, NOT (ucast a))"
    by (simp only: SplitNECAddress_bytes high_byte_zero_iff if_True)
  then have "case_prod MakeNECAddress (SplitNECAddress a) = ucast (ucast a :: u8)"
    by (simp only: prod.case MakeNECAddress_def simp_thms if_True)
  also have "\<dots> = a AND 0xff"
    by (rule low_byte_u16)
  finally show ?thesis
    using True by (simp only: low_byte_small if_cancel)
next
  case False
  then have split: "SplitNECAddress a = (ucast a, ucast (drop_bit 8 a))"
    by (simp only: SplitNECAddress_bytes high_byte_zero_iff if_False)
  show ?thesis
  proof (cases "(ucast (drop_bit 8 a) :: u8) = NOT (ucast a)")
    case True
    then show ?thesis
      by (simp only: split prod.case MakeNECAddress_def simp_thms if_True low_byte_u16)
  next
    case False
    then show ?thesis
      by (simp only: split prod.case MakeNECAddress_def simp_thms if_False join_bytes_u16)
  qed
qed

lemma decode_encode:
  "SplitRawNECData (MakeRawNECData a c) =
     (True, case_prod MakeNECAddress (SplitNECAddress a), c)"
proof -
  obtain lo hi where sp: "SplitNECAddress a = (lo, hi)"
    by (cases "SplitNECAddress a")
  have "SplitRawNECData (MakeRawNECData a c) = (c = NOT (NOT c), MakeNECAddress lo hi, c)"
    unfolding MakeRawNECData_def sp prod.case SplitRawNECData_bytes
      packed_byte0 packed_byte1 packed_byte2 packed_byte3 ..
  then show ?thesis
    by (simp add: sp)
qed

lemma flip_breaks_validity:
  assumes i: "16 \<le> i" "i < 32"
    and v: "(ucast (drop_bit 16 d) :: u8) = NOT (ucast (drop_bit 24 (d :: u32)))"
  shows "(ucast (drop_bit 16 (flip_bit i d)) :: u8) \<noteq> NOT (ucast (drop_bit 24 (flip_bit i d)))"
proof
  assume v': "(ucast (drop_bit 16 (flip_bit i d)) :: u8) = NOT (ucast (drop_bit 24 (flip_bit i d)))"
  define j where "j = i mod 8"
  have j: "j < 8"
    by (simp add: j_def)
  have ij: "i = 16 + j \<or> i = 24 + j"
    using i unfolding j_def by presburger
  have b: "bit d (16 + j) = (\<not> bit d (24 + j))"
    using arg_cong [OF v, of "\<lambda>w. bit w j"] j by (simp add: bit_simps)
  have b': "bit (flip_bit i d) (16 + j) = (\<not> bit (flip_bit i d) (24 + j))"
    using arg_cong [OF v', of "\<lambda>w. bit w j"] j by (simp add: bit_simps)
  show False
    using ij b b' j by (auto simp: bit_simps)
qed

section \<open>Claims about the codec\<close>

text \<open>
  C1. Encode/decode round trip: for every address in \<open>0..0xFF\<close>, and for every
  address in \<open>0x100..0xFFFF\<close> whose high byte is not the bitwise complement of its
  low byte, and for every command, \<open>SplitRawNECData\<close> applied to
  \<open>MakeRawNECData address command\<close> returns \<open>(True, address, command)\<close>.
\<close>

theorem raw_roundtrip:
  "(address \<le> 0xFF \<longrightarrow>
      SplitRawNECData (MakeRawNECData address command) = (True, address, command)) \<and>
   (0x100 \<le> address \<and>
    (ucast (drop_bit 8 address) :: u8) \<noteq> NOT (ucast (address AND 0xFF)) \<longrightarrow>
      SplitRawNECData (MakeRawNECData address command) = (True, address, command))"
proof (intro conjI impI)
  assume "address \<le> 0xFF"
  then have "case_prod MakeNECAddress (SplitNECAddress address) = address"
    by (simp only: split_make_address low_byte_small if_cancel)
  then show "SplitRawNECData (MakeRawNECData address command) = (True, address, command)"
    by (simp only: decode_encode)
next
  assume "0x100 \<le> address \<and>
    (ucast (drop_bit 8 address) :: u8) \<noteq> NOT (ucast (address AND 0xFF))"
  then have "(ucast (drop_bit 8 address) :: u8) \<noteq> NOT (ucast address)"
    by (simp add: byte0_of_u16)
  then have "case_prod MakeNECAddress (SplitNECAddress address) = address"
    by (simp add: split_make_address)
  then show "SplitRawNECData (MakeRawNECData address command) = (True, address, command)"
    by (simp only: decode_encode)
qed

theorem raw_roundtrip_witness:
  "(0x20 :: u16) \<le> 0xFF \<and>
   SplitRawNECData (MakeRawNECData 0x20 0x5A) = (True, 0x20, 0x5A) \<and>
   (0x100 :: u16) \<le> 0xF00D \<and>
   (ucast (drop_bit 8 (0xF00D :: u16)) :: u8) \<noteq> NOT (ucast (0xF00D AND 0xFF :: u16)) \<and>
   SplitRawNECData (MakeRawNECData 0xF00D 0x5A) = (True, 0xF00D, 0x5A)"
  using raw_roundtrip [of "0x20" "0x5A"] raw_roundtrip [of "0xF00D" "0x5A"] by simp

text \<open>
  C2. Collapse of colliding extended addresses: for every address in
  \<open>0x100..0xFFFF\<close> whose high byte equals the bitwise complement of its low byte,
  and every command, decoding the encoded raw code returns
  \<open>(True, address AND 0xFF, command)\<close>.
\<close>

theorem raw_roundtrip_collapse:
  "0x100 \<le> address \<and>
   (ucast (drop_bit 8 address) :: u8) = NOT (ucast (address AND 0xFF)) \<Longrightarrow>
     SplitRawNECData (MakeRawNECData address command) = (True, address AND 0xFF, command)"
proof -
  assume "0x100 \<le> address \<and>
    (ucast (drop_bit 8 address) :: u8) = NOT (ucast (address AND 0xFF))"
  then have "(ucast (drop_bit 8 address) :: u8) = NOT (ucast address)"
    by (simp add: byte0_of_u16)
  then have "case_prod MakeNECAddress (SplitNECAddress address) = address AND 0xFF"
    by (simp add: split_make_address)
  then show "SplitRawNECData (MakeRawNECData address command) = (True, address AND 0xFF, command)"
    by (simp only: decode_encode)
qed

theorem raw_roundtrip_collapse_witness:
  "(0x100 :: u16) \<le> 0xF00F \<and>
   (ucast (drop_bit 8 (0xF00F :: u16)) :: u8) = NOT (ucast (0xF00F AND 0xFF :: u16)) \<and>
   SplitRawNECData (MakeRawNECData 0xF00F 0x5A) = (True, 0x0F, 0x5A)"
  using raw_roundtrip_collapse [of "0xF00F" "0x5A"] by simp

text \<open>
  C5. Validity flag of the decoder: for every raw code, \<open>SplitRawNECData\<close> returns
  \<open>valid = True\<close> exactly when the command byte (bits 16 to 23) equals the bitwise
  complement of the inverted-command byte (bits 24 to 31); address and command are
  computed from the raw bits whatever the flag is; and flipping one bit \<open>i\<close> of the
  command byte or of the inverted-command byte (\<open>16 \<le> i < 32\<close>) of a valid code gives
  an invalid code.
\<close>

theorem SplitRawNECData_valid_iff:
  "fst (SplitRawNECData data) =
     ((ucast (drop_bit 16 data) :: u8) = NOT (ucast (drop_bit 24 data))) \<and>
   fst (snd (SplitRawNECData data)) = MakeNECAddress (ucast data) (ucast (drop_bit 8 data)) \<and>
   snd (snd (SplitRawNECData data)) = ucast (drop_bit 16 data) \<and>
   (16 \<le> i \<and> i < 32 \<and> fst (SplitRawNECData data) \<longrightarrow>
      \<not> fst (SplitRawNECData (flip_bit i data)))"
  using flip_breaks_validity [of i data] by (simp add: SplitRawNECData_bytes)

theorem SplitRawNECData_valid_iff_witness:
  "(16 :: nat) \<le> 24 \<and> (24 :: nat) < 32 \<and> fst (SplitRawNECData 0x00FFFF00) \<and>
   \<not> fst (SplitRawNECData (flip_bit 24 0x00FFFF00)) \<and>
   fst (snd (SplitRawNECData (flip_bit 24 0x00FFFF00))) = 0 \<and>
   snd (snd (SplitRawNECData (flip_bit 24 0x00FFFF00))) = 0xFF"
  using SplitRawNECData_valid_iff [of "0x00FFFF00" 24]
    SplitRawNECData_valid_iff [of "flip_bit 24 0x00FFFF00" 24]
  by (simp add: MakeNECAddress_def)

text \<open>
  C7. Encoding layout: \<open>MakeRawNECData\<close> takes \<open>low = address AND 0xFF\<close> and
  \<open>high\<close> = the complement of \<open>low\<close> when the high byte of the address is zero,
  the high byte otherwise, and packs \<open>low\<close>, \<open>high\<close> shifted by 8, the command
  shifted by 16 and the complemented command shifted by 24; the five vectors
  \<open>(0x0000, 0x00) \<mapsto> 0xFF00FF00\<close>, \<open>(0x0000, 0xFF) \<mapsto> 0x00FFFF00\<close>,
  \<open>(0x00FF, 0x00) \<mapsto> 0xFF0000FF\<close>, \<open>(0x0100, 0x00) \<mapsto> 0xFF000100\<close> and
  \<open>(0xFE00, 0x00) \<mapsto> 0xFF00FE00\<close> hold.
\<close>

theorem MakeRawNECData_layout:
  "MakeRawNECData address command =
     (let low = (ucast (address AND 0xFF) :: u8);
          high = (if drop_bit 8 address = 0 then NOT low else ucast (drop_bit 8 address))
      in ucast low OR push_bit 8 (ucast high) OR push_bit 16 (ucast command)
           OR push_bit 24 (ucast (NOT command))) \<and>
   MakeRawNECData 0x0000 0x00 = 0xFF00FF00 \<and>
   MakeRawNECData 0x0000 0xFF = 0x00FFFF00 \<and>
   MakeRawNECData 0x00FF 0x00 = 0xFF0000FF \<and>
   MakeRawNECData 0x0100 0x00 = 0xFF000100 \<and>
   MakeRawNECData 0xFE00 0x00 = 0xFF00FE00"
proof -
  have hz: "((ucast (drop_bit 8 address) :: u8) = 0) = (drop_bit 8 address = 0)"
    by (simp only: high_byte_zero_iff drop8_zero_iff)
  have "MakeRawNECData address command =
     (let low = (ucast (address AND 0xFF) :: u8);
          high = (if drop_bit 8 address = 0 then NOT low else ucast (drop_bit 8 address))
      in ucast low OR push_bit 8 (ucast high) OR push_bit 16 (ucast command)
           OR push_bit 24 (ucast (NOT command)))"
    unfolding MakeRawNECData_def SplitNECAddress_bytes hz byte0_of_u16 Let_def
    by (simp add: ac_simps)
  moreover have "MakeRawNECData 0x0000 0x00 = 0xFF00FF00"
    by code_simp
  moreover have "MakeRawNECData 0x0000 0xFF = 0x00FFFF00"
    by code_simp
  moreover have "MakeRawNECData 0x00FF 0x00 = 0xFF0000FF"
    by code_simp
  moreover have "MakeRawNECData 0x0100 0x00 = 0xFF000100"
    by code_simp
  moreover have "MakeRawNECData 0xFE00 0x00 = 0xFF00FE00"
    by code_simp
  ultimately show ?thesis
    by blast
qed

text \<open>
  C10. Address canonicalisation is idempotent: with \<open>f address\<close> the result of
  \<open>MakeNECAddress\<close> on the pair returned by \<open>SplitNECAddress address\<close>,
  \<open>f (f address) = f address\<close> for every 16-bit address.
\<close>

theorem address_canonical_idempotent:
  "case_prod MakeNECAddress
     (SplitNECAddress (case_prod MakeNECAddress (SplitNECAddress address)))
   = case_prod MakeNECAddress (SplitNECAddress address)"
proof (cases "(ucast (drop_bit 8 address) :: u8) = NOT (ucast address)")
  case True
  then have fa: "case_prod MakeNECAddress (SplitNECAddress address) = address AND 0xff"
    by (simp add: split_make_address)
  have idem: "(address AND 0xff) AND 0xff = address AND 0xff"
    by (simp add: and.assoc)
  have "case_prod MakeNECAddress (SplitNECAddress (address AND 0xff)) = address AND 0xff"
    by (simp only: split_make_address [of "address AND 0xff"] idem if_cancel)
  then show ?thesis
    by (simp only: fa)
next
  case False
  then have "case_prod MakeNECAddress (SplitNECAddress address) = address"
    by (simp add: split_make_address)
  then show ?thesis
    by (simp only:)
qed

section \<open>Durations of a transmission\<close>

lemma wait_idle: "chRpt (ir s) = None \<Longrightarrow> waitForAutoRepeatCancel s = Some s"
  by (simp add: waitForAutoRepeatCancel.simps)

lemma mask_test: "((b :: u8) AND push_bit i 1 = 0) = (\<not> bit b i)"
  by (simp add: bit_iff_and_push_bit_not_eq_0)

lemma mask_test_exp: "((b :: u8) AND 2 ^ i = 0) = (\<not> bit b i)"
  using mask_test [of b i] by simp

lemma sendBitsFrom_duration:
  "snd (sendBitsFrom b i (s, tx)) =
     tx + int (length (filter (bit b) [i..<8])) * nec_bit_1_space
        + int (length (filter (\<lambda>n. \<not> bit b n) [i..<8])) * nec_bit_0_space"
proof (induction b i "(s, tx)" arbitrary: s tx rule: sendBitsFrom.induct)
  case (1 b i s tx)
  show ?case
  proof (cases "i < 8")
    case False
    then show ?thesis
      by (simp add: sendBitsFrom.simps [of b i])
  next
    case True
    then have upt: "[i..<8] = i # [Suc i..<8]"
      by (simp add: upt_conv_Cons)
    show ?thesis
    proof (cases "bit b i")
      case True
      with \<open>i < 8\<close> "1.hyps"(2) [OF \<open>i < 8\<close> refl refl] show ?thesis
        by (simp add: sendBitsFrom.simps [of b i] mask_test_exp upt Let_def algebra_simps)
    next
      case False
      with \<open>i < 8\<close> "1.hyps"(1) [OF \<open>i < 8\<close> refl refl] show ?thesis
        by (simp add: sendBitsFrom.simps [of b i] mask_test_exp upt Let_def algebra_simps)
    qed
  qed
qed

lemma zeros_of_byte: "length (filter (\<lambda>n. \<not> bit b n) [0..<8]) = 8 - count_1_bits b"
  using sum_length_filter_compl [of "bit b" "[0..<8]"] by (simp add: count_1_bits_def)

lemma count_1_bits_le: "count_1_bits b \<le> 8"
  using length_filter_le [of "bit b" "[0..<8]"] by (simp add: count_1_bits_def)

lemma count_1_bits_card: "count_1_bits b = card {n. bit b n}"
proof -
  have "{n. bit b n} = set (filter (bit b) [0..<8])"
    by (auto dest: bit_imp_le_length)
  moreover have "distinct (filter (bit b) [0..<8])"
    by simp
  ultimately show ?thesis
    unfolding count_1_bits_def by (simp only: distinct_card)
qed

lemma sendByte_duration:
  "snd (sendBitsFrom b 0 st) =
     snd st + int (count_1_bits b) * nec_bit_1_space + (8 - int (count_1_bits b)) * nec_bit_0_space"
  using count_1_bits_le [of b]
  by (cases st) (simp add: sendBitsFrom_duration zeros_of_byte count_1_bits_def [symmetric] of_nat_diff)

lemma sendBytes_duration:
  "snd (sendBytes bs st) =
     snd st + (\<Sum>b\<leftarrow>bs. int (count_1_bits b) * nec_bit_1_space + (8 - int (count_1_bits b)) * nec_bit_0_space)"
  by (induction bs arbitrary: st) (simp_all add: sendByte_duration)

lemma waitForAutoRepeatCancel_returns:
  "waitForAutoRepeatCancel s = Some s' \<Longrightarrow> chRpt (ir s) = None \<and> s' = s"
  by (rule waitForAutoRepeatCancel.raw_induct
        [where P = "\<lambda>s s'. chRpt (ir s) = None \<and> s' = s"])
     (fastforce simp: sleep_def split: option.splits chan.splits)+

lemma frame_duration:
  "(\<Sum>b\<leftarrow>[b0, b1, b2, b3]. int (count_1_bits b) * nec_bit_1_space
        + (8 - int (count_1_bits b)) * nec_bit_0_space) =
   int (count_1_bits b0 + count_1_bits b1 + count_1_bits b2 + count_1_bits b3) * nec_bit_1_space
     + (32 - int (count_1_bits b0 + count_1_bits b1 + count_1_bits b2 + count_1_bits b3)) * nec_bit_0_space"
  by (simp add: algebra_simps)

lemma transmit_duration:
  assumes "sendBytes [b0, b1, b2, b3]
             (s2, nec_lead_mark + nec_lead_space + 32 * nec_bit_mark + nec_trail_mark) = (s3, t)"
  shows "t = nec_lead_mark + nec_lead_space + 32 * nec_bit_mark + nec_trail_mark
           + int (count_1_bits b0 + count_1_bits b1 + count_1_bits b2 + count_1_bits b3) * nec_bit_1_space
           + (32 - int (count_1_bits b0 + count_1_bits b1 + count_1_bits b2 + count_1_bits b3)) * nec_bit_0_space"
proof -
  have "t = snd (sendBytes [b0, b1, b2, b3]
             (s2, nec_lead_mark + nec_lead_space + 32 * nec_bit_mark + nec_trail_mark))"
    by (simp only: assms snd_conv)
  then show ?thesis
    by (simp only: sendBytes_duration snd_conv frame_duration)
qed

lemma SendNECRawBytes_Some:
  assumes "SendNECRawBytes s b0 b1 b2 b3 = Some (s', t)"
  shows "t = nec_lead_mark + nec_lead_space + 32 * nec_bit_mark + nec_trail_mark
           + int (count_1_bits b0 + count_1_bits b1 + count_1_bits b2 + count_1_bits b3) * nec_bit_1_space
           + (32 - int (count_1_bits b0 + count_1_bits b1 + count_1_bits b2 + count_1_bits b3)) * nec_bit_0_space"
proof -
  from assms obtain s0 where w: "waitForAutoRepeatCancel s = Some s0"
    by (cases "waitForAutoRepeatCancel s") (simp_all add: SendNECRawBytes_def)
  let ?s2 = "space nec_lead_space (mark nec_lead_mark s0)"
  let ?tx = "nec_lead_mark + nec_lead_space + 32 * nec_bit_mark + nec_trail_mark"
  obtain s3 t' where r: "sendBytes [b0, b1, b2, b3] (?s2, ?tx) = (s3, t')"
    by (cases "sendBytes [b0, b1, b2, b3] (?s2, ?tx)")
  have "SendNECRawBytes s b0 b1 b2 b3 = Some (mark nec_trail_mark s3, t')"
    unfolding SendNECRawBytes_def w Let_def option.case r prod.case ..
  with assms have "t = t'" by simp
  with transmit_duration [OF r] show ?thesis by simp
qed

lemma SendNECRawBytes_idle:
  assumes "chRpt (ir s) = None"
  shows "\<exists>s' t. SendNECRawBytes s b0 b1 b2 b3 = Some (s', t)"
proof -
  let ?s2 = "space nec_lead_space (mark nec_lead_mark s)"
  let ?tx = "nec_lead_mark + nec_lead_space + 32 * nec_bit_mark + nec_trail_mark"
  obtain s3 t where r: "sendBytes [b0, b1, b2, b3] (?s2, ?tx) = (s3, t)"
    by (cases "sendBytes [b0, b1, b2, b3] (?s2, ?tx)")
  have "SendNECRawBytes s b0 b1 b2 b3 = Some (mark nec_trail_mark s3, t)"
    unfolding SendNECRawBytes_def wait_idle [OF assms] Let_def option.case r prod.case ..
  then show ?thesis by blast
qed

lemma frame_duration_bounds:
  "57 * nec_unit + 32 * nec_unit \<le>
     nec_lead_mark + nec_lead_space + 32 * nec_bit_mark + nec_trail_mark
       + int (count_1_bits b0 + count_1_bits b1 + count_1_bits b2 + count_1_bits b3) * nec_bit_1_space
       + (32 - int (count_1_bits b0 + count_1_bits b1 + count_1_bits b2 + count_1_bits b3)) * nec_bit_0_space
   \<and>
   nec_lead_mark + nec_lead_space + 32 * nec_bit_mark + nec_trail_mark
       + int (count_1_bits b0 + count_1_bits b1 + count_1_bits b2 + count_1_bits b3) * nec_bit_1_space
       + (32 - int (count_1_bits b0 + count_1_bits b1 + count_1_bits b2 + count_1_bits b3)) * nec_bit_0_space
     \<le> nec_lead_mark + nec_lead_space + 32 * (nec_bit_mark + nec_bit_1_space) + nec_trail_mark"
  using count_1_bits_le [of b0] count_1_bits_le [of b1] count_1_bits_le [of b2] count_1_bits_le [of b3]
  by (simp add: nec_consts)

lemma goroutines_mark [simp]: "goroutines (mark d s) = goroutines s"
  by (simp add: mark_def pwm_set_def sleep_def Let_def)

lemma goroutines_space [simp]: "goroutines (space d s) = goroutines s"
  by (simp add: space_def sleep_def)

lemma goroutines_sendBitsFrom: "goroutines (fst (sendBitsFrom b i (s, tx))) = goroutines s"
proof (induction b i "(s, tx)" arbitrary: s tx rule: sendBitsFrom.induct)
  case (1 b i s tx)
  show ?case
  proof (cases "i < 8")
    case False
    then show ?thesis
      by (simp add: sendBitsFrom.simps [of b i])
  next
    case True
    show ?thesis
    proof (cases "b AND push_bit i 1 = 0")
      case z: True
      from "1.hyps"(1) [OF True refl refl z] True z show ?thesis
        by (simp add: sendBitsFrom.simps [of b i] Let_def)
    next
      case nz: False
      from "1.hyps"(2) [OF True refl refl nz] True nz show ?thesis
        by (simp add: sendBitsFrom.simps [of b i] Let_def)
    qed
  qed
qed

lemma goroutines_sendBytes: "goroutines (fst (sendBytes bs st)) = goroutines (fst st)"
proof (induction bs arbitrary: st)
  case Nil
  show ?case by simp
next
  case (Cons b bs)
  obtain s tx where st: "st = (s, tx)" by (cases st)
  show ?case
    by (simp add: Cons.IH st goroutines_sendBitsFrom)
qed

lemma SendNECRawBytes_goroutines:
  assumes "SendNECRawBytes s b0 b1 b2 b3 = Some (s', t)"
  shows "goroutines s' = goroutines s"
proof -
  from assms obtain s0 where w: "waitForAutoRepeatCancel s = Some s0"
    by (cases "waitForAutoRepeatCancel s") (simp_all add: SendNECRawBytes_def)
  then have s0: "s0 = s"
    by (simp add: waitForAutoRepeatCancel_returns)
  let ?s2 = "space nec_lead_space (mark nec_lead_mark s0)"
  let ?tx = "nec_lead_mark + nec_lead_space + 32 * nec_bit_mark + nec_trail_mark"
  obtain s3 t' where r: "sendBytes [b0, b1, b2, b3] (?s2, ?tx) = (s3, t')"
    by (cases "sendBytes [b0, b1, b2, b3] (?s2, ?tx)")
  have "SendNECRawBytes s b0 b1 b2 b3 = Some (mark nec_trail_mark s3, t')"
    unfolding SendNECRawBytes_def w Let_def option.case r prod.case ..
  with assms have s': "s' = mark nec_trail_mark s3" by simp
  have "goroutines s3 = goroutines (fst (sendBytes [b0, b1, b2, b3] (?s2, ?tx)))"
    by (simp only: r fst_conv)
  also have "\<dots> = goroutines s"
    by (simp only: goroutines_sendBytes fst_conv goroutines_space goroutines_mark s0)
  finally show ?thesis
    by (simp add: s')
qed

lemma SendNECRawBytes_positive:
  assumes "SendNECRawBytes s b0 b1 b2 b3 = Some (s', t)"
  shows "89 * nec_unit \<le> t \<and> t \<le> 153 * nec_unit"
  using SendNECRawBytes_Some [OF assms] frame_duration_bounds [of b0 b1 b2 b3]
  by (simp add: nec_consts)

text \<open>
  \<open>txDuration\<close> only grows during a transmission, so the bound on the result bounds
  every intermediate sum: the arithmetic never leaves the range of a 64-bit integer.
\<close>

lemma SendNECRawBytes_int64:
  assumes "SendNECRawBytes s b0 b1 b2 b3 = Some (s', t)"
  shows "0 < t \<and> t < 2 ^ 63"
  using SendNECRawBytes_positive [OF assms] by (simp add: nec_consts)

lemma SendNEC_autoRepeat:
  "SendNEC s address command True =
     (case SendNECRawBytes s (fst (SplitNECAddress address)) (snd (SplitNECAddress address))
             command (NOT command) of
        None \<Rightarrow> None
      | Some (s1, t) \<Rightarrow>
          Some (s1\<lparr>ir := (ir s1)\<lparr>chRpt := Some Open\<rparr>,
                    goroutines := goroutines s1 @ [nec_repeat_period - t]\<rparr>))"
  by (simp add: SendNEC_def split: prod.splits option.splits)

section \<open>Claims about the sender\<close>

text \<open>
  C4. Duration of a full transmission: for every four bytes, \<open>SendNECRawBytes\<close>
  returns the lead mark, the lead space, 32 bit marks and the trail mark, plus
  \<open>k\<close> one-spaces and \<open>32 - k\<close> zero-spaces, where \<open>k\<close> is the number of 1 bits
  of the four bytes. A sender with no repeat session does return.
\<close>

theorem SendNECRawBytes_duration:
  "(chRpt (ir s) = None \<longrightarrow> (\<exists>s' t. SendNECRawBytes s addrLow addrHigh cmd invCmd = Some (s', t))) \<and>
   (SendNECRawBytes s addrLow addrHigh cmd invCmd = Some (s', t) \<longrightarrow>
      t = nec_lead_mark + nec_lead_space + 32 * nec_bit_mark + nec_trail_mark
            + int (count_1_bits addrLow + count_1_bits addrHigh + count_1_bits cmd + count_1_bits invCmd) * nec_bit_1_space
            + (32 - int (count_1_bits addrLow + count_1_bits addrHigh + count_1_bits cmd + count_1_bits invCmd)) * nec_bit_0_space)"
  using SendNECRawBytes_idle [of s addrLow addrHigh cmd invCmd]
    SendNECRawBytes_Some [of s addrLow addrHigh cmd invCmd s' t]
  by blast

theorem SendNECRawBytes_duration_witness:
  "chRpt (ir idle_sender) = None \<and>
   (\<exists>s'. SendNECRawBytes idle_sender 0x00 0xFF 0x20 0xDF = Some (s', 68062500)) \<and>
   count_1_bits 0x00 + count_1_bits 0xFF + count_1_bits 0x20 + count_1_bits 0xDF = 16"
proof -
  have idle: "chRpt (ir idle_sender) = None"
    by (simp add: idle_sender_def NewSender_def)
  have k: "count_1_bits 0x00 + count_1_bits 0xFF + count_1_bits 0x20 + count_1_bits 0xDF = 16"
    by (simp add: count_1_bits_def upt_rec)
  from SendNECRawBytes_duration [of idle_sender "0x00" "0xFF" "0x20" "0xDF"] idle
  obtain s' t where r: "SendNECRawBytes idle_sender 0x00 0xFF 0x20 0xDF = Some (s', t)"
    by blast
  with SendNECRawBytes_duration [of idle_sender "0x00" "0xFF" "0x20" "0xDF" s' t] have "t = 68062500"
    by (simp add: k nec_consts)
  with r idle k show ?thesis
    by blast
qed

text \<open>
  C6. \<open>SendNECRawCode\<close> on a raw code whose command byte is not the complement of
  its inverted-command byte returns duration 0 and leaves the state, so the log of
  outputs, as it was; on a valid raw code it returns a duration that is not 0; so the
  returned duration is 0 exactly when the code is invalid.
\<close>

theorem SendNECRawCode_zero_iff_invalid:
  "((ucast (drop_bit 16 data) :: u8) \<noteq> NOT (ucast (drop_bit 24 data)) \<longrightarrow>
      SendNECRawCode s data = Some (s, 0)) \<and>
   ((ucast (drop_bit 16 data) :: u8) = NOT (ucast (drop_bit 24 data)) \<and> chRpt (ir s) = None \<longrightarrow>
      (\<exists>s' t. SendNECRawCode s data = Some (s', t) \<and> t \<noteq> 0)) \<and>
   (SendNECRawCode s data = Some (s', t) \<longrightarrow>
      (t = 0) = ((ucast (drop_bit 16 data) :: u8) \<noteq> NOT (ucast (drop_bit 24 data))))"
proof -
  obtain lo hi where sp:
    "SplitNECAddress (MakeNECAddress (ucast data) (ucast (drop_bit 8 data))) = (lo, hi)"
    by (cases "SplitNECAddress (MakeNECAddress (ucast data) (ucast (drop_bit 8 data)))")
  let ?cmd = "ucast (drop_bit 16 data) :: u8"
  let ?valid = "?cmd = NOT (ucast (drop_bit 24 data))"
  have inv: "\<not> ?valid \<Longrightarrow> SendNECRawCode s data = Some (s, 0)"
    by (simp add: SendNECRawCode_def SplitRawNECData_bytes)
  have val: "?valid \<Longrightarrow> SendNECRawCode s data = SendNECRawBytes s lo hi ?cmd (NOT ?cmd)"
    by (simp add: SendNECRawCode_def SplitRawNECData_bytes sp)
  have nz: "?valid \<Longrightarrow> SendNECRawCode s data = Some (s'', t') \<Longrightarrow> t' \<noteq> 0" for s'' t'
    using SendNECRawBytes_positive [of s lo hi ?cmd "NOT ?cmd" s'' t'] val
    by (simp add: nec_consts)
  have "?valid \<and> chRpt (ir s) = None \<longrightarrow> (\<exists>s' t. SendNECRawCode s data = Some (s', t) \<and> t \<noteq> 0)"
  proof
    assume a: "?valid \<and> chRpt (ir s) = None"
    then obtain s'' t' where "SendNECRawBytes s lo hi ?cmd (NOT ?cmd) = Some (s'', t')"
      using SendNECRawBytes_idle [of s lo hi ?cmd "NOT ?cmd"] by blast
    with a val have r: "SendNECRawCode s data = Some (s'', t')"
      by simp
    with a nz [of s'' t'] show "\<exists>s' t. SendNECRawCode s data = Some (s', t) \<and> t \<noteq> 0"
      by blast
  qed
  moreover have "SendNECRawCode s data = Some (s', t) \<longrightarrow> (t = 0) = (\<not> ?valid)"
    using inv nz [of s' t] by (cases ?valid) auto
  ultimately show ?thesis
    using inv by blast
qed

theorem SendNECRawCode_zero_iff_invalid_witness:
  "(ucast (drop_bit 16 (0x01FFFF00 :: u32)) :: u8) \<noteq> NOT (ucast (drop_bit 24 (0x01FFFF00 :: u32))) \<and>
   SendNECRawCode idle_sender 0x01FFFF00 = Some (idle_sender, 0) \<and>
   (ucast (drop_bit 16 (0x00FFFF00 :: u32)) :: u8) = NOT (ucast (drop_bit 24 (0x00FFFF00 :: u32))) \<and>
   chRpt (ir idle_sender) = None \<and>
   (\<exists>s' t. SendNECRawCode idle_sender 0x00FFFF00 = Some (s', t) \<and> t \<noteq> 0)"
  using SendNECRawCode_zero_iff_invalid [of "0x01FFFF00" idle_sender] SendNECRawCode_zero_iff_invalid [of "0x00FFFF00" idle_sender]
  by (simp add: idle_sender_def NewSender_def)

text \<open>
  C8. Duty cycle default: \<open>NewSender\<close> stores 33 when \<open>ModulationDutyCycle\<close> is
  outside \<open>[1, 100]\<close> (zero and negative values too) and the configured value when it
  is inside; every configuration yields a device.
\<close>

theorem NewSender_duty_cycle:
  "(1 \<le> ModulationDutyCycle config \<and> ModulationDutyCycle config \<le> 100 \<longrightarrow>
      pwmDC (NewSender config) = ModulationDutyCycle config) \<and>
   (ModulationDutyCycle config < 1 \<or> 100 < ModulationDutyCycle config \<longrightarrow>
      pwmDC (NewSender config) = 33) \<and>
   pin (NewSender config) = Pin config \<and> pwm (NewSender config) = PWM config \<and>
   chRpt (NewSender config) = None"
  by (simp add: NewSender_def Let_def)

theorem NewSender_duty_cycle_witness:
  "pwmDC (NewSender \<lparr>Pin = 13, PWM = \<lparr>Channel = (\<lambda>p. 2), Top = 1000\<rparr>, ModulationDutyCycle = 0\<rparr>) = 33 \<and>
   pwmDC (NewSender \<lparr>Pin = 13, PWM = \<lparr>Channel = (\<lambda>p. 2), Top = 1000\<rparr>, ModulationDutyCycle = - 7\<rparr>) = 33 \<and>
   pwmDC (NewSender \<lparr>Pin = 13, PWM = \<lparr>Channel = (\<lambda>p. 2), Top = 1000\<rparr>, ModulationDutyCycle = 101\<rparr>) = 33 \<and>
   pwmDC (NewSender \<lparr>Pin = 13, PWM = \<lparr>Channel = (\<lambda>p. 2), Top = 1000\<rparr>, ModulationDutyCycle = 1\<rparr>) = 1 \<and>
   pwmDC (NewSender \<lparr>Pin = 13, PWM = \<lparr>Channel = (\<lambda>p. 2), Top = 1000\<rparr>, ModulationDutyCycle = 100\<rparr>) = 100"
  using NewSender_duty_cycle [of "\<lparr>Pin = 13, PWM = \<lparr>Channel = (\<lambda>p. 2), Top = 1000\<rparr>, ModulationDutyCycle = 0\<rparr>"]
    NewSender_duty_cycle [of "\<lparr>Pin = 13, PWM = \<lparr>Channel = (\<lambda>p. 2), Top = 1000\<rparr>, ModulationDutyCycle = - 7\<rparr>"]
    NewSender_duty_cycle [of "\<lparr>Pin = 13, PWM = \<lparr>Channel = (\<lambda>p. 2), Top = 1000\<rparr>, ModulationDutyCycle = 101\<rparr>"]
    NewSender_duty_cycle [of "\<lparr>Pin = 13, PWM = \<lparr>Channel = (\<lambda>p. 2), Top = 1000\<rparr>, ModulationDutyCycle = 1\<rparr>"]
    NewSender_duty_cycle [of "\<lparr>Pin = 13, PWM = \<lparr>Channel = (\<lambda>p. 2), Top = 1000\<rparr>, ModulationDutyCycle = 100\<rparr>"]
  by simp

text \<open>
  C9. Every full transmission fits inside one repeat period: the duration returned by
  \<open>SendNECRawBytes\<close> is at most lead mark + lead space + 32 (bit mark + one-space)
  + trail mark = 153 units (86.0625 ms), below the repeat period of 192 units
  (108 ms); so the first sleep of the repeat goroutine started by \<open>SendNEC\<close>,
  the repeat period minus the transmission duration, is strictly positive.
\<close>

theorem SendNECRawBytes_within_repeat_period:
  "(chRpt (ir s) = None \<longrightarrow>
      (\<exists>s' t. SendNECRawBytes s addrLow addrHigh cmd invCmd = Some (s', t))) \<and>
   (SendNECRawBytes s addrLow addrHigh cmd invCmd = Some (s', t) \<longrightarrow>
      t \<le> nec_lead_mark + nec_lead_space + 32 * (nec_bit_mark + nec_bit_1_space) + nec_trail_mark \<and>
      t < nec_repeat_period) \<and>
   nec_lead_mark + nec_lead_space + 32 * (nec_bit_mark + nec_bit_1_space) + nec_trail_mark
     = 153 * nec_unit \<and>
   153 * nec_unit = 86062500 \<and>
   nec_repeat_period = 192 * nec_unit \<and> nec_repeat_period = 108000000 \<and>
   (chRpt (ir s) = None \<longrightarrow> (\<exists>s''. SendNEC s address command True = Some s'')) \<and>
   (SendNEC s address command True = Some s'' \<longrightarrow>
      (\<exists>w. goroutines s'' = goroutines s @ [w] \<and> 0 < w))"
proof -
  let ?lo = "fst (SplitNECAddress address)"
  let ?hi = "snd (SplitNECAddress address)"
  have a: "chRpt (ir s) = None \<longrightarrow>
      (\<exists>s' t. SendNECRawBytes s addrLow addrHigh cmd invCmd = Some (s', t))"
    using SendNECRawBytes_idle [of s addrLow addrHigh cmd invCmd] by blast
  have b: "SendNECRawBytes s addrLow addrHigh cmd invCmd = Some (s', t) \<longrightarrow>
      t \<le> nec_lead_mark + nec_lead_space + 32 * (nec_bit_mark + nec_bit_1_space) + nec_trail_mark \<and>
      t < nec_repeat_period"
    using SendNECRawBytes_positive [of s addrLow addrHigh cmd invCmd s' t]
    by (auto simp: nec_consts)
  have c: "nec_lead_mark + nec_lead_space + 32 * (nec_bit_mark + nec_bit_1_space) + nec_trail_mark
     = 153 * nec_unit \<and> 153 * nec_unit = 86062500 \<and>
     nec_repeat_period = 192 * nec_unit \<and> nec_repeat_period = 108000000"
    by (simp add: nec_consts)
  have d: "chRpt (ir s) = None \<longrightarrow> (\<exists>s''. SendNEC s address command True = Some s'')"
  proof
    assume "chRpt (ir s) = None"
    then obtain s1 t1 where "SendNECRawBytes s ?lo ?hi command (NOT command) = Some (s1, t1)"
      using SendNECRawBytes_idle [of s ?lo ?hi command "NOT command"] by blast
    then show "\<exists>s''. SendNEC s address command True = Some s''"
      by (simp add: SendNEC_autoRepeat)
  qed
  have e: "SendNEC s address command True = Some s'' \<longrightarrow>
      (\<exists>w. goroutines s'' = goroutines s @ [w] \<and> 0 < w)"
  proof
    assume r: "SendNEC s address command True = Some s''"
    then obtain s1 t1 where
      r1: "SendNECRawBytes s ?lo ?hi command (NOT command) = Some (s1, t1)"
      by (cases "SendNECRawBytes s ?lo ?hi command (NOT command)")
         (auto simp: SendNEC_autoRepeat)
    with r have "goroutines s'' = goroutines s1 @ [nec_repeat_period - t1]"
      by (auto simp: SendNEC_autoRepeat)
    moreover have "goroutines s1 = goroutines s"
      using r1 by (rule SendNECRawBytes_goroutines)
    moreover have "0 < nec_repeat_period - t1"
      using SendNECRawBytes_positive [OF r1] by (simp add: nec_consts)
    ultimately show "\<exists>w. goroutines s'' = goroutines s @ [w] \<and> 0 < w"
      by simp
  qed
  from a b c d e show ?thesis
    by blast
qed

theorem SendNECRawBytes_within_repeat_period_witness:
  "chRpt (ir idle_sender) = None \<and>
   (\<exists>s' t. SendNECRawBytes idle_sender 0x20 0xDF 0x5A 0xA5 = Some (s', t) \<and> t < nec_repeat_period) \<and>
   (\<exists>s'' w. SendNEC idle_sender 0x20 0x5A True = Some s'' \<and> goroutines s'' = [w] \<and> 0 < w)"
proof -
  have idle: "chRpt (ir idle_sender) = None"
    by (simp add: idle_sender_def NewSender_def)
  have g: "goroutines idle_sender = []"
    by (simp add: idle_sender_def)
  note inst = SendNECRawBytes_within_repeat_period [of idle_sender "0x20" "0xDF" "0x5A" "0xA5" _ _ "0x20" "0x5A"]
  from idle inst
  obtain s' t where r: "SendNECRawBytes idle_sender 0x20 0xDF 0x5A 0xA5 = Some (s', t)"
    by blast
  with inst [of s' t] have lt: "t < nec_repeat_period"
    by blast
  from idle inst
  obtain s'' where r2: "SendNEC idle_sender 0x20 0x5A True = Some s''"
    by blast
  with inst [of s' t s''] have "\<exists>w. goroutines s'' = goroutines idle_sender @ [w] \<and> 0 < w"
    by blast
  with g obtain w where "goroutines s'' = [w] \<and> 0 < w"
    by auto
  with idle r lt r2 show ?thesis
    by blast
qed

end
